theory Spec2Isabelle
  imports Main "HOL-Library.Word"
begin

unbundle bit_operations_syntax

section \<open>The VGA text terminal of kernel.c\<close>

text \<open>
  The kernel is built for 32-bit x86 (see the header comment of kernel.c), so
  \<^verbatim>\<open>size_t\<close> is a 32-bit unsigned integer. A \<^verbatim>\<open>char\<close> is modelled by its byte:
  the only operations on it are the comparison with the newline character and the
  conversion to \<^verbatim>\<open>unsigned char\<close>, which both depend on the bit pattern only.
\<close>

type_synonym uint8_t = "8 word"
type_synonym uint16_t = "16 word"
type_synonym size_t = "32 word"

definition VGA_WIDTH :: size_t where
  "VGA_WIDTH = 80"

definition VGA_HEIGHT :: size_t where
  "VGA_HEIGHT = 25"

datatype vga_color =
    VGA_BLACK | VGA_BLUE | VGA_GREEN | VGA_CYAN
  | VGA_RED | VGA_MAGENTA | VGA_BROWN | VGA_LIGHT_GREY
  | VGA_DARK_GREY | VGA_LIGHT_BLUE | VGA_LIGHT_GREEN | VGA_LIGHT_CYAN
  | VGA_LIGHT_RED | VGA_LIGHT_MAGENTA | VGA_YELLOW | VGA_WHITE

text \<open>The enumeration constants are values of type \<^verbatim>\<open>int\<close>.\<close>

fun vga_color_code :: "vga_color \<Rightarrow> int" where
  "vga_color_code VGA_BLACK = 0"
| "vga_color_code VGA_BLUE = 1"
| "vga_color_code VGA_GREEN = 2"
| "vga_color_code VGA_CYAN = 3"
| "vga_color_code VGA_RED = 4"
| "vga_color_code VGA_MAGENTA = 5"
| "vga_color_code VGA_BROWN = 6"
| "vga_color_code VGA_LIGHT_GREY = 7"
| "vga_color_code VGA_DARK_GREY = 8"
| "vga_color_code VGA_LIGHT_BLUE = 9"
| "vga_color_code VGA_LIGHT_GREEN = 10"
| "vga_color_code VGA_LIGHT_CYAN = 11"
| "vga_color_code VGA_LIGHT_RED = 12"
| "vga_color_code VGA_LIGHT_MAGENTA = 13"
| "vga_color_code VGA_YELLOW = 14"
| "vga_color_code VGA_WHITE = 15"

text \<open>
  \<^verbatim>\<open>return fg | bg << 4;\<close> is computed in \<^verbatim>\<open>int\<close> (the shift binds tighter than
  the bitwise or) and converted to \<^verbatim>\<open>uint8_t\<close> by the return, that is, reduced
  modulo 256. The operands are below 16, so the \<^verbatim>\<open>int\<close> arithmetic cannot overflow.
\<close>

definition vga_entry_color :: "vga_color \<Rightarrow> vga_color \<Rightarrow> uint8_t" where
  "vga_entry_color fg bg = word_of_int (vga_color_code fg OR push_bit 4 (vga_color_code bg))"

text \<open>
  \<^verbatim>\<open>return (uint16_t) uc | (uint16_t) color << 8;\<close>: both casts yield 16-bit values
  that are promoted to \<^verbatim>\<open>int\<close>; the result is converted to \<^verbatim>\<open>uint16_t\<close> by the
  return.
\<close>

definition vga_entry :: "uint8_t \<Rightarrow> uint8_t \<Rightarrow> uint16_t" where
  "vga_entry uc color =
     word_of_int (uint (ucast uc :: uint16_t) OR push_bit 8 (uint (ucast color :: uint16_t)))"

subsection \<open>Terminal state\<close>

text \<open>
  The four static variables. \<open>terminal_buffer\<close> stands for the array of 16-bit
  cells that the pointer of that name points to, as a function of the
  \<^verbatim>\<open>size_t\<close> index: a store that is total, so that no write is lost, whatever the
  cursor. Indices below \<open>VGA_WIDTH * VGA_HEIGHT\<close> are the visible grid; a write with
  a cursor outside the grid lands in a cell beyond it, as it does in memory. The
  code never reads the buffer.
\<close>

record terminal =
  terminal_row :: size_t
  terminal_column :: size_t
  terminal_color :: uint8_t
  terminal_buffer :: "size_t \<Rightarrow> uint16_t"

text \<open>Inner loop of \<open>terminal_initialize\<close>: \<^verbatim>\<open>for (x = ...; x < VGA_WIDTH; x++)\<close>.\<close>

function terminal_initialize_x :: "size_t \<Rightarrow> size_t \<Rightarrow> terminal \<Rightarrow> terminal" where
  "terminal_initialize_x y x s =
     (if x < VGA_WIDTH then
        let index = y * VGA_WIDTH + x in
        terminal_initialize_x y (x + 1)
          (s\<lparr>terminal_buffer := (terminal_buffer s)(index := vga_entry 32 (terminal_color s))\<rparr>)
      else s)"
  by pat_completeness auto
termination
  by (relation "measure (\<lambda>(y, x, s). unat VGA_WIDTH - unat x)")
     (auto simp: VGA_WIDTH_def word_less_nat_alt unat_word_ariths)

declare terminal_initialize_x.simps [simp del]

text \<open>Outer loop: \<^verbatim>\<open>for (y = ...; y < VGA_HEIGHT; y++)\<close>.\<close>

function terminal_initialize_y :: "size_t \<Rightarrow> terminal \<Rightarrow> terminal" where
  "terminal_initialize_y y s =
     (if y < VGA_HEIGHT then terminal_initialize_y (y + 1) (terminal_initialize_x y 0 s)
      else s)"
  by pat_completeness auto
termination
  by (relation "measure (\<lambda>(y, s). unat VGA_HEIGHT - unat y)")
     (auto simp: VGA_HEIGHT_def word_less_nat_alt unat_word_ariths)

declare terminal_initialize_y.simps [simp del]

text \<open>
  \<open>terminal_initialize\<close> assigns all four variables and reads none of them. The
  assignment \<^verbatim>\<open>terminal_buffer = (uint16_t*) VGA_MEMORY\<close> makes the buffer the
  memory-mapped region at \<^verbatim>\<open>0xB8000\<close>; its contents at that moment are the
  parameter \<open>vga_memory\<close>.
\<close>

definition terminal_initialize :: "(size_t \<Rightarrow> uint16_t) \<Rightarrow> terminal" where
  "terminal_initialize vga_memory =
     terminal_initialize_y 0
       \<lparr>terminal_row = 0, terminal_column = 0,
        terminal_color = vga_entry_color VGA_LIGHT_CYAN VGA_BLACK,
        terminal_buffer = vga_memory\<rparr>"

definition terminal_setcolor :: "uint8_t \<Rightarrow> terminal \<Rightarrow> terminal" where
  "terminal_setcolor color s = s\<lparr>terminal_color := color\<rparr>"

definition terminal_putentryat :: "uint8_t \<Rightarrow> uint8_t \<Rightarrow> size_t \<Rightarrow> size_t \<Rightarrow> terminal \<Rightarrow> terminal" where
  "terminal_putentryat c color x y s =
     (let index = y * VGA_WIDTH + x in
      s\<lparr>terminal_buffer := (terminal_buffer s)(index := vga_entry c color)\<rparr>)"

text \<open>
  \<open>next_row\<close> is the statement \<^verbatim>\<open>if (++terminal_row == VGA_HEIGHT) terminal_row = 0;\<close>
  which occurs twice in \<open>terminal_putchar\<close>. The increment is that of a 32-bit
  unsigned integer.
\<close>

definition next_row :: "terminal \<Rightarrow> terminal" where
  "next_row s =
     (let s1 = s\<lparr>terminal_row := terminal_row s + 1\<rparr> in
      if terminal_row s1 = VGA_HEIGHT then s1\<lparr>terminal_row := 0\<rparr> else s1)"

definition terminal_putchar :: "uint8_t \<Rightarrow> terminal \<Rightarrow> terminal" where
  "terminal_putchar c s =
     (if c = 10 then next_row (s\<lparr>terminal_column := 0\<rparr>)
      else
        let s1 = terminal_putentryat c (terminal_color s) (terminal_column s) (terminal_row s) s;
            s2 = s1\<lparr>terminal_column := terminal_column s1 + 1\<rparr>
        in if terminal_column s2 = VGA_WIDTH then next_row (s2\<lparr>terminal_column := 0\<rparr>) else s2)"

text \<open>
  A \<^verbatim>\<open>const char*\<close> argument is modelled by the bytes of the array it points to.
  Reading at an index outside that array has no defined result and is the value
  \<open>None\<close>. The counters \<open>i\<close> and \<open>len\<close> stay below the length of an array that
  fits a 32-bit address space, so they cannot wrap and are natural numbers.
\<close>

function terminal_write_from :: "uint8_t list \<Rightarrow> nat \<Rightarrow> nat \<Rightarrow> terminal \<Rightarrow> terminal option" where
  "terminal_write_from data sz i s =
     (if i < sz then
        (if i < length data then terminal_write_from data sz (i + 1) (terminal_putchar (data ! i) s)
         else None)
      else Some s)"
  by pat_completeness auto
termination
  by (relation "measure (\<lambda>(data, sz, i, s). sz - i)") auto

declare terminal_write_from.simps [simp del]

definition terminal_write :: "uint8_t list \<Rightarrow> nat \<Rightarrow> terminal \<Rightarrow> terminal option" where
  "terminal_write data sz s = terminal_write_from data sz 0 s"

function strlen_from :: "uint8_t list \<Rightarrow> nat \<Rightarrow> nat option" where
  "strlen_from str len =
     (if len < length str then
        (if str ! len \<noteq> 0 then strlen_from str (len + 1) else Some len)
      else None)"
  by pat_completeness auto
termination
  by (relation "measure (\<lambda>(str, len). length str - len)") auto

declare strlen_from.simps [simp del]

definition strlen :: "uint8_t list \<Rightarrow> nat option" where
  "strlen str = strlen_from str 0"

definition terminal_writestring :: "uint8_t list \<Rightarrow> terminal \<Rightarrow> terminal option" where
  "terminal_writestring data s =
     (case strlen data of None \<Rightarrow> None | Some n \<Rightarrow> terminal_write data n s)"

definition terminal_writeline :: "uint8_t list \<Rightarrow> terminal \<Rightarrow> terminal option" where
  "terminal_writeline data s =
     (case terminal_writestring data s of None \<Rightarrow> None
      | Some s1 \<Rightarrow> Some (terminal_putchar 10 s1))"

text \<open>
  The cursor-bounds invariant of the terminal state: the cursor addresses a cell of
  the \<open>VGA_WIDTH\<close> by \<open>VGA_HEIGHT\<close> grid.
\<close>

definition cursor_in_bounds :: "terminal \<Rightarrow> bool" where
  "cursor_in_bounds s \<longleftrightarrow> terminal_row s < VGA_HEIGHT \<and> terminal_column s < VGA_WIDTH"

text \<open>A video memory that holds zero in every cell, for concrete runs.\<close>

definition blank_memory :: "size_t \<Rightarrow> uint16_t" where
  "blank_memory index = 0"

subsection \<open>Auxiliary facts\<close>

lemma putchar_newline:
  "terminal_putchar 10 s =
     s\<lparr>terminal_column := 0,
       terminal_row := (if terminal_row s + 1 = 25 then 0 else terminal_row s + 1)\<rparr>"
  by (simp add: terminal_putchar_def next_row_def Let_def VGA_HEIGHT_def)

lemma putchar_other:
  "c \<noteq> 10 \<Longrightarrow> terminal_putchar c s =
     s\<lparr>terminal_buffer := (terminal_buffer s)
          (terminal_row s * 80 + terminal_column s := vga_entry c (terminal_color s)),
       terminal_column := (if terminal_column s + 1 = 80 then 0 else terminal_column s + 1),
       terminal_row := (if terminal_column s + 1 = 80
                        then (if terminal_row s + 1 = 25 then 0 else terminal_row s + 1)
                        else terminal_row s)\<rparr>"
  by (simp add: terminal_putchar_def terminal_putentryat_def next_row_def Let_def
      VGA_HEIGHT_def VGA_WIDTH_def)



lemma unat_byte: "unat (w :: uint8_t) < 256"
  using unsigned_less [of w, where 'a = nat] by simp

lemma vga_entry_or: "vga_entry uc color = ucast uc OR push_bit 8 (ucast color)"
  unfolding vga_entry_def
  by (rule bit_word_eqI) (auto simp: bit_simps)

lemma vga_entry_plus: "vga_entry uc color = ucast uc + push_bit 8 (ucast color)"
  unfolding vga_entry_or
  by (rule disjunctive_add [symmetric]) (auto simp: bit_simps dest: bit_imp_le_length)

lemma vga_entry_low: "ucast (vga_entry uc color) = uc"
  unfolding vga_entry_or
  by (rule bit_word_eqI) (auto simp: bit_simps)

lemma vga_entry_high: "ucast (drop_bit 8 (vga_entry uc color)) = color"
  unfolding vga_entry_or
  by (rule bit_word_eqI) (auto simp: bit_simps dest: bit_imp_le_length)

lemma unat_ucast_byte: "unat (ucast (uc :: uint8_t) :: uint16_t) = unat uc"
  using unat_byte [of uc] by (simp add: unsigned_ucast_eq take_bit_nat_eq_self)

lemma unat_push_byte: "unat (push_bit 8 (ucast (c :: uint8_t) :: uint16_t)) = 256 * unat c"
  using unat_byte [of c]
  by (simp add: push_bit_eq_mult unat_word_ariths unat_ucast_byte)

lemma unat_vga_entry: "unat (vga_entry uc color) = unat uc + 256 * unat color"
  unfolding vga_entry_plus using unat_byte [of uc] unat_byte [of color]
  by (simp add: unat_word_ariths unat_ucast_byte unat_push_byte)

lemma word_inc_bound:
  fixes a :: size_t
  assumes "a < n" "a + 1 \<noteq> n"
  shows "a + 1 < n"
  using assms by (metis inc_le order_le_imp_less_or_eq)

lemma putchar_in_bounds: "cursor_in_bounds s \<Longrightarrow> cursor_in_bounds (terminal_putchar c s)"
proof (cases "c = 10")
  case True
  assume "cursor_in_bounds s"
  then show ?thesis
    unfolding True putchar_newline cursor_in_bounds_def VGA_HEIGHT_def VGA_WIDTH_def
    by (simp add: word_inc_bound)
next
  case False
  assume "cursor_in_bounds s"
  then show ?thesis
    unfolding putchar_other [OF False] cursor_in_bounds_def VGA_HEIGHT_def VGA_WIDTH_def
    by (simp add: word_inc_bound)
qed

lemma terminal_write_from_fold:
  "sz \<le> length data \<Longrightarrow> i \<le> sz \<Longrightarrow>
   terminal_write_from data sz i s = Some (fold terminal_putchar (drop i (take sz data)) s)"
proof (induction data sz i s rule: terminal_write_from.induct)
  case (1 data sz i s)
  show ?case
  proof (cases "i < sz")
    case True
    with "1.prems" have il: "i < length data" by simp
    have d: "drop i (take sz data) = data ! i # drop (i + 1) (take sz data)"
      using Cons_nth_drop_Suc [of i "take sz data"] True il by simp
    have "terminal_write_from data sz i s =
        terminal_write_from data sz (i + 1) (terminal_putchar (data ! i) s)"
      using True il by (subst terminal_write_from.simps) simp
    also have "\<dots> = Some (fold terminal_putchar (drop (i + 1) (take sz data))
        (terminal_putchar (data ! i) s))"
      using "1.IH" [OF True il] "1.prems" True by simp
    finally show ?thesis by (simp only: d fold_simps comp_def)
  next
    case False
    with "1.prems" have "i = sz" by simp
    then show ?thesis using "1.prems" by (subst terminal_write_from.simps) simp
  qed
qed

lemma terminal_write_fold:
  "sz \<le> length data \<Longrightarrow>
   terminal_write data sz s = Some (fold terminal_putchar (take sz data) s)"
  by (simp add: terminal_write_def terminal_write_from_fold)

lemma strlen_from_takeWhile:
  "i \<le> length str \<Longrightarrow> 0 \<in> set (drop i str) \<Longrightarrow>
   strlen_from str i = Some (i + length (takeWhile (\<lambda>b. b \<noteq> 0) (drop i str)))"
proof (induction str i rule: strlen_from.induct)
  case (1 str len)
  from "1.prems" have l: "len < length str" by (cases "len < length str") auto
  have d: "drop len str = str ! len # drop (len + 1) str"
    using l by (simp add: Cons_nth_drop_Suc)
  show ?case
  proof (cases "str ! len = 0")
    case True
    have "strlen_from str len = Some len"
      using True l by (subst strlen_from.simps) simp
    then show ?thesis using True by (simp add: d)
  next
    case False
    with "1.prems" d have "0 \<in> set (drop (len + 1) str)" by auto
    with "1.IH" [OF l False] l have "strlen_from str (len + 1) =
      Some (len + 1 + length (takeWhile (\<lambda>b. b \<noteq> 0) (drop (len + 1) str)))" by simp
    moreover have "strlen_from str len = strlen_from str (len + 1)"
      using False l by (subst strlen_from.simps) simp
    ultimately show ?thesis using False by (simp add: d)
  qed
qed

lemma strlen_takeWhile:
  "0 \<in> set str \<Longrightarrow> strlen str = Some (length (takeWhile (\<lambda>b. b \<noteq> 0) str))"
  using strlen_from_takeWhile [of 0 str] by (simp add: strlen_def)

lemma of_nat_inj32:
  "k < 2 ^ 32 \<Longrightarrow> n < 2 ^ 32 \<Longrightarrow> (of_nat k :: size_t) = of_nat n \<longleftrightarrow> k = n"
  by (simp add: word_of_nat_eq_iff take_bit_nat_eq_self)

lemma unat_add_of_nat:
  "unat (c :: size_t) + n < 2 ^ 32 \<Longrightarrow> unat (c + of_nat n) = unat c + n"
  by (simp add: unat_word_ariths unat_of_nat take_bit_nat_eq_self)

lemma col_wrap_iff:
  assumes "unat (c :: size_t) + n < 80"
  shows "c + of_nat n + 1 = 80 \<longleftrightarrow> unat c + n + 1 = 80"
proof -
  have "unat (c + of_nat n + 1) = unat (c + of_nat (n + 1))" by (simp add: ac_simps)
  also have "\<dots> = unat c + (n + 1)"
    using assms by (intro unat_add_of_nat) simp
  finally have u: "unat (c + of_nat n + 1) = unat c + n + 1" by simp
  have "unat (80 :: size_t) = 80" by simp
  with u show ?thesis by (metis word_unat_eq_iff)
qed

lemma fold_putchar_line:
  assumes "10 \<notin> set bs" "unat (terminal_column s) + length bs \<le> 80"
  shows "terminal_color (fold terminal_putchar bs s) = terminal_color s \<and>
    (\<forall>k<length bs. terminal_buffer (fold terminal_putchar bs s)
        (terminal_row s * 80 + terminal_column s + of_nat k) = vga_entry (bs ! k) (terminal_color s)) \<and>
    (\<forall>idx. (\<forall>k<length bs. idx \<noteq> terminal_row s * 80 + terminal_column s + of_nat k) \<longrightarrow>
        terminal_buffer (fold terminal_putchar bs s) idx = terminal_buffer s idx) \<and>
    (unat (terminal_column s) + length bs < 80 \<longrightarrow>
        terminal_column (fold terminal_putchar bs s) = terminal_column s + of_nat (length bs) \<and>
        terminal_row (fold terminal_putchar bs s) = terminal_row s) \<and>
    (bs \<noteq> [] \<and> unat (terminal_column s) + length bs = 80 \<longrightarrow>
        terminal_column (fold terminal_putchar bs s) = 0 \<and>
        terminal_row (fold terminal_putchar bs s) =
          (if terminal_row s + 1 = 25 then 0 else terminal_row s + 1))"
  using assms
proof (induction bs rule: rev_induct)
  case Nil
  then show ?case by simp
next
  case (snoc b bs)
  let ?n = "length bs"
  let ?mid = "fold terminal_putchar bs s"
  let ?base = "terminal_row s * 80 + terminal_column s"
  from snoc.prems have b: "b \<noteq> 10" and nl: "10 \<notin> set bs"
    and lt: "unat (terminal_column s) + ?n < 80" by auto
  from snoc.IH [OF nl] lt have
    color: "terminal_color ?mid = terminal_color s" and
    cells: "\<And>k. k < ?n \<Longrightarrow> terminal_buffer ?mid (?base + of_nat k) = vga_entry (bs ! k) (terminal_color s)" and
    frame: "\<And>idx. (\<forall>k<?n. idx \<noteq> ?base + of_nat k) \<Longrightarrow> terminal_buffer ?mid idx = terminal_buffer s idx" and
    col: "terminal_column ?mid = terminal_column s + of_nat ?n" and
    row: "terminal_row ?mid = terminal_row s"
    by simp_all
  have f: "fold terminal_putchar (bs @ [b]) s = terminal_putchar b ?mid" by simp
  have buf: "terminal_buffer (terminal_putchar b ?mid) =
      (terminal_buffer ?mid)(?base + of_nat ?n := vga_entry b (terminal_color s))"
    by (simp add: putchar_other [OF b] color col row add.assoc)
  have neq: "?base + of_nat k \<noteq> ?base + of_nat ?n" if "k < ?n" for k
  proof -
    from that lt have "k < 2 ^ 32" "?n < 2 ^ 32" "k \<noteq> ?n" by simp_all
    then have "(of_nat k :: size_t) \<noteq> of_nat ?n" by (simp add: of_nat_inj32)
    then show ?thesis by simp
  qed
  have c1: "terminal_color (terminal_putchar b ?mid) = terminal_color s"
    by (simp add: putchar_other [OF b] color)
  have c2: "terminal_buffer (terminal_putchar b ?mid) (?base + of_nat k) =
      vga_entry ((bs @ [b]) ! k) (terminal_color s)" if "k < length (bs @ [b])" for k
  proof (cases "k < ?n")
    case True
    then show ?thesis using neq [OF True] cells [OF True] by (simp add: buf nth_append)
  next
    case False
    with that have "k = ?n" by simp
    then show ?thesis by (simp add: buf)
  qed
  have c3: "terminal_buffer (terminal_putchar b ?mid) idx = terminal_buffer s idx"
    if "\<forall>k<length (bs @ [b]). idx \<noteq> ?base + of_nat k" for idx
  proof -
    from that have "idx \<noteq> ?base + of_nat ?n" and "\<forall>k<?n. idx \<noteq> ?base + of_nat k" by simp_all
    then show ?thesis using frame by (simp add: buf)
  qed
  have c4: "terminal_column (terminal_putchar b ?mid) = terminal_column s + of_nat (length (bs @ [b])) \<and>
        terminal_row (terminal_putchar b ?mid) = terminal_row s"
    if "unat (terminal_column s) + length (bs @ [b]) < 80"
    using that col_wrap_iff [OF lt] by (simp add: putchar_other [OF b] col row)
  have c5: "terminal_column (terminal_putchar b ?mid) = 0 \<and>
        terminal_row (terminal_putchar b ?mid) = (if terminal_row s + 1 = 25 then 0 else terminal_row s + 1)"
    if "unat (terminal_column s) + length (bs @ [b]) = 80"
    using that col_wrap_iff [OF lt] by (simp add: putchar_other [OF b] col row)
  show ?case unfolding f using c1 c2 c3 c4 c5 by blast
qed

lemma init_x_fields:
  "terminal_row (terminal_initialize_x y x s) = terminal_row s \<and>
   terminal_column (terminal_initialize_x y x s) = terminal_column s \<and>
   terminal_color (terminal_initialize_x y x s) = terminal_color s"
proof (induction y x s rule: terminal_initialize_x.induct)
  case (1 y x s)
  show ?case
  proof (cases "x < VGA_WIDTH")
    case True
    then show ?thesis
      using "1.IH" [OF True refl] by (subst (1 2 3) terminal_initialize_x.simps) (simp add: Let_def)
  next
    case False
    then show ?thesis by (subst (1 2 3) terminal_initialize_x.simps) simp
  qed
qed

lemma init_x_keeps:
  "terminal_buffer s idx = vga_entry 32 (terminal_color s) \<Longrightarrow>
   terminal_buffer (terminal_initialize_x y x s) idx = vga_entry 32 (terminal_color s)"
proof (induction y x s rule: terminal_initialize_x.induct)
  case (1 y x s)
  show ?case
  proof (cases "x < VGA_WIDTH")
    case True
    then show ?thesis
      using "1.IH" [OF True refl] "1.prems"
      by (subst terminal_initialize_x.simps) (simp add: Let_def)
  next
    case False
    then show ?thesis using "1.prems" by (subst terminal_initialize_x.simps) simp
  qed
qed

lemma init_x_fills:
  "x \<le> x' \<Longrightarrow> x' < VGA_WIDTH \<Longrightarrow>
   terminal_buffer (terminal_initialize_x y x s) (y * VGA_WIDTH + x') = vga_entry 32 (terminal_color s)"
proof (induction y x s rule: terminal_initialize_x.induct)
  case (1 y x s)
  from "1.prems" have lt: "x < VGA_WIDTH" by simp
  let ?s1 = "s\<lparr>terminal_buffer := (terminal_buffer s)(y * VGA_WIDTH + x := vga_entry 32 (terminal_color s))\<rparr>"
  have unf: "terminal_initialize_x y x s = terminal_initialize_x y (x + 1) ?s1"
    using lt by (subst terminal_initialize_x.simps) (simp add: Let_def)
  show ?case
  proof (cases "x' = x")
    case True
    show ?thesis unfolding unf True
      using init_x_keeps [of ?s1 "y * VGA_WIDTH + x" y "x + 1"] by simp
  next
    case False
    with "1.prems" have "x < x'" by simp
    then have "x + 1 \<le> x'" by (rule inc_le)
    from "1.IH" [OF lt refl this "1.prems"(2)] show ?thesis unfolding unf by simp
  qed
qed

lemma init_y_fields:
  "terminal_row (terminal_initialize_y y s) = terminal_row s \<and>
   terminal_column (terminal_initialize_y y s) = terminal_column s \<and>
   terminal_color (terminal_initialize_y y s) = terminal_color s"
proof (induction y s rule: terminal_initialize_y.induct)
  case (1 y s)
  show ?case
  proof (cases "y < VGA_HEIGHT")
    case True
    then show ?thesis
      using "1.IH" [OF True] by (subst (1 2 3) terminal_initialize_y.simps) (simp add: init_x_fields)
  next
    case False
    then show ?thesis by (subst (1 2 3) terminal_initialize_y.simps) simp
  qed
qed

lemma init_y_keeps:
  "terminal_buffer s idx = vga_entry 32 (terminal_color s) \<Longrightarrow>
   terminal_buffer (terminal_initialize_y y s) idx = vga_entry 32 (terminal_color s)"
proof (induction y s rule: terminal_initialize_y.induct)
  case (1 y s)
  show ?case
  proof (cases "y < VGA_HEIGHT")
    case True
    then show ?thesis
      using "1.IH" [OF True] "1.prems" init_x_keeps [of s idx y 0]
      by (subst terminal_initialize_y.simps) (simp add: init_x_fields)
  next
    case False
    then show ?thesis using "1.prems" by (subst terminal_initialize_y.simps) simp
  qed
qed

lemma init_y_fills:
  "y \<le> y' \<Longrightarrow> y' < VGA_HEIGHT \<Longrightarrow> x' < VGA_WIDTH \<Longrightarrow>
   terminal_buffer (terminal_initialize_y y s) (y' * VGA_WIDTH + x') = vga_entry 32 (terminal_color s)"
proof (induction y s rule: terminal_initialize_y.induct)
  case (1 y s)
  from "1.prems" have lt: "y < VGA_HEIGHT" by simp
  have unf: "terminal_initialize_y y s = terminal_initialize_y (y + 1) (terminal_initialize_x y 0 s)"
    using lt by (subst terminal_initialize_y.simps) simp
  show ?case
  proof (cases "y' = y")
    case True
    have "terminal_buffer (terminal_initialize_x y 0 s) (y * VGA_WIDTH + x') = vga_entry 32 (terminal_color s)"
      using init_x_fills [of 0 x' y s] "1.prems" by simp
    then show ?thesis unfolding unf True
      using init_y_keeps [of "terminal_initialize_x y 0 s" "y * VGA_WIDTH + x'" "y + 1"]
      by (simp add: init_x_fields)
  next
    case False
    with "1.prems" have "y < y'" by simp
    then have "y + 1 \<le> y'" by (rule inc_le)
    from "1.IH" [OF lt this "1.prems"(2,3)] show ?thesis unfolding unf by (simp add: init_x_fields)
  qed
qed

lemma row_step_mod:
  assumes "r < VGA_HEIGHT"
  shows "unat (if r + 1 = VGA_HEIGHT then 0 else r + 1) = (unat r + 1) mod 25"
proof -
  from assms have lt: "unat r < 25"
    by (simp add: VGA_HEIGHT_def word_less_nat_alt)
  then have u: "unat (r + 1) = unat r + 1"
    using unat_add_of_nat [of r 1] by simp
  have "unat (25 :: size_t) = 25" by simp
  with u have "r + 1 = 25 \<longleftrightarrow> unat r + 1 = 25"
    by (metis word_unat_eq_iff)
  with lt u show ?thesis by (auto simp: VGA_HEIGHT_def)
qed

lemma write_prefix_fold:
  "terminal_write (S @ rest) (length S) s = Some (fold terminal_putchar S s)"
  using terminal_write_fold [of "length S" "S @ rest" s] by simp

lemma of_nat_less32:
  "k < n \<Longrightarrow> n < 2 ^ 32 \<Longrightarrow> (of_nat k :: size_t) < of_nat n"
  by (simp add: word_of_nat_less_iff take_bit_nat_eq_self)

lemma write_from_in_bounds:
  "cursor_in_bounds s \<Longrightarrow> terminal_write_from data sz i s = Some s' \<Longrightarrow> cursor_in_bounds s'"
proof (induction data sz i s rule: terminal_write_from.induct)
  case (1 data sz i s)
  from "1.prems"(2) have e:
    "(if i < sz then
        (if i < length data
         then terminal_write_from data sz (i + 1) (terminal_putchar (data ! i) s) else None)
      else Some s) = Some s'"
    by (subst (asm) terminal_write_from.simps)
  show ?case
  proof (cases "i < sz")
    case True
    with e have il: "i < length data" by (simp split: if_splits)
    with e True have "terminal_write_from data sz (i + 1) (terminal_putchar (data ! i) s) = Some s'"
      by simp
    with "1.IH" [OF True il putchar_in_bounds [OF "1.prems"(1)]] show ?thesis by simp
  next
    case False
    with e "1.prems"(1) show ?thesis by simp
  qed
qed

lemma write_in_bounds:
  "cursor_in_bounds s \<Longrightarrow> terminal_write data sz s = Some s' \<Longrightarrow> cursor_in_bounds s'"
  unfolding terminal_write_def by (rule write_from_in_bounds)

lemma writestring_in_bounds:
  "cursor_in_bounds s \<Longrightarrow> terminal_writestring str s = Some s' \<Longrightarrow> cursor_in_bounds s'"
  by (auto simp: terminal_writestring_def split: option.splits intro: write_in_bounds)

lemma writeline_in_bounds:
  "cursor_in_bounds s \<Longrightarrow> terminal_writeline str s = Some s' \<Longrightarrow> cursor_in_bounds s'"
  by (auto simp: terminal_writeline_def split: option.splits
      intro: writestring_in_bounds putchar_in_bounds)

lemma writestring_string:
  assumes "0 \<in> set str"
  shows "terminal_writestring str s =
      Some (fold terminal_putchar (takeWhile (\<lambda>b. b \<noteq> 0) str) s)"
proof -
  let ?n = "length (takeWhile (\<lambda>b. b \<noteq> 0) str)"
  have le: "?n \<le> length str" by (rule length_takeWhile_le)
  have tk: "take ?n str = takeWhile (\<lambda>b. b \<noteq> 0) str"
    by (rule takeWhile_eq_take [symmetric])
  show ?thesis
    by (simp add: terminal_writestring_def strlen_takeWhile [OF assms]
        terminal_write_fold [OF le] tk)
qed

lemma putchar_newline_moves: "terminal_putchar 10 s \<noteq> s"
proof
  assume "terminal_putchar 10 s = s"
  then have "terminal_row (terminal_putchar 10 s) = terminal_row s" by simp
  then show False by (auto simp: putchar_newline split: if_splits)
qed

section \<open>Properties of the terminal\<close>

text \<open>
  C8. The cell encoding is the one the hardware expects. For all sixteen colours
  \<open>fg\<close> and \<open>bg\<close> the attribute byte is \<open>fg | (bg << 4)\<close>: the foreground in the
  low nibble, the background in the high nibble. For every character byte \<open>c\<close> and
  attribute \<open>a\<close> the 16-bit cell is \<open>c | (a << 8)\<close>: the character in the low byte,
  the attribute in the high byte; and that value is what \<open>terminal_putentryat\<close>
  stores at index \<open>y * VGA_WIDTH + x\<close>.
\<close>

theorem vga_cell_encoding:
  "vga_entry_color fg bg =
     word_of_int (vga_color_code fg) OR push_bit 4 (word_of_int (vga_color_code bg)) \<and>
   take_bit 4 (vga_entry_color fg bg) = word_of_int (vga_color_code fg) \<and>
   drop_bit 4 (vga_entry_color fg bg) = word_of_int (vga_color_code bg) \<and>
   uint (vga_entry_color fg bg) = vga_color_code fg + 16 * vga_color_code bg \<and>
   vga_entry c a = ucast c OR push_bit 8 (ucast a) \<and>
   ucast (vga_entry c a) = c \<and>
   ucast (drop_bit 8 (vga_entry c a)) = a \<and>
   unat (vga_entry c a) = unat c + 256 * unat a \<and>
   terminal_buffer (terminal_putentryat c a x y s) (y * VGA_WIDTH + x) = vga_entry c a"
proof -
  have packed: "vga_entry_color fg bg =
      word_of_int (vga_color_code fg) OR push_bit 4 (word_of_int (vga_color_code bg))"
    by (cases fg; cases bg) (simp_all add: vga_entry_color_def)
  have low: "take_bit 4 (vga_entry_color fg bg) = word_of_int (vga_color_code fg)"
    by (cases fg; cases bg) (simp_all add: vga_entry_color_def)
  have high: "drop_bit 4 (vga_entry_color fg bg) = word_of_int (vga_color_code bg)"
    by (cases fg; cases bg) (simp_all add: vga_entry_color_def)
  have val: "uint (vga_entry_color fg bg) = vga_color_code fg + 16 * vga_color_code bg"
    by (cases fg; cases bg) (simp_all add: vga_entry_color_def)
  have stored: "terminal_buffer (terminal_putentryat c a x y s) (y * VGA_WIDTH + x) = vga_entry c a"
    by (simp add: terminal_putentryat_def)
  from packed low high val stored show ?thesis
    by (simp only: vga_entry_or [symmetric] vga_entry_low vga_entry_high unat_vga_entry simp_thms)
qed

text \<open>
  C10. \<open>terminal_write\<close> with length 0 changes nothing, whatever the array: the
  result is the state it was given, with the same cursor row and column, attribute
  and cells. The empty string is an array that starts with the terminator, and
  \<open>terminal_writestring\<close> of it changes nothing either.
\<close>

theorem write_nothing_is_identity:
  "terminal_write data 0 s = Some s \<and> terminal_writestring (0 # rest) s = Some s"
proof -
  have w: "terminal_write d 0 s = Some s" for d
    unfolding terminal_write_def by (subst terminal_write_from.simps) simp
  have "strlen (0 # rest) = Some 0"
    unfolding strlen_def by (subst strlen_from.simps) simp
  then show ?thesis by (simp add: terminal_writestring_def w)
qed

text \<open>
  C2. \<open>terminal_putchar\<close> of the newline character, from any cursor position, sets
  the column to 0 and the row to row + 1, or to 0 when row + 1 equals
  \<open>VGA_HEIGHT\<close>; it writes no cell and leaves the attribute alone. For a row inside
  the grid the new row is (row + 1) modulo 25.
\<close>

theorem putchar_newline_advances_row:
  "terminal_column (terminal_putchar 10 s) = 0 \<and>
   terminal_row (terminal_putchar 10 s) =
     (if terminal_row s + 1 = VGA_HEIGHT then 0 else terminal_row s + 1) \<and>
   terminal_buffer (terminal_putchar 10 s) = terminal_buffer s \<and>
   terminal_color (terminal_putchar 10 s) = terminal_color s \<and>
   (terminal_row s < VGA_HEIGHT \<longrightarrow>
      unat (terminal_row (terminal_putchar 10 s)) = (unat (terminal_row s) + 1) mod 25)"
proof -
  have "unat (terminal_row (terminal_putchar 10 s)) = (unat (terminal_row s) + 1) mod 25"
    if "terminal_row s < VGA_HEIGHT"
  proof -
    from that have lt: "unat (terminal_row s) < 25"
      by (simp add: VGA_HEIGHT_def word_less_nat_alt)
    then have u: "unat (terminal_row s + 1) = unat (terminal_row s) + 1"
      using unat_add_of_nat [of "terminal_row s" 1] by simp
    have "unat (25 :: size_t) = 25" by simp
    with u have "terminal_row s + 1 = 25 \<longleftrightarrow> unat (terminal_row s) + 1 = 25"
      by (metis word_unat_eq_iff)
    with lt u show ?thesis by (auto simp: putchar_newline)
  qed
  then show ?thesis by (simp add: putchar_newline VGA_HEIGHT_def)
qed

theorem putchar_newline_advances_row_witness:
  "terminal_column (terminal_putchar 10
      \<lparr>terminal_row = 24, terminal_column = 17, terminal_color = 7, terminal_buffer = blank_memory\<rparr>) = 0 \<and>
   terminal_row (terminal_putchar 10
      \<lparr>terminal_row = 24, terminal_column = 17, terminal_color = 7, terminal_buffer = blank_memory\<rparr>) = 0 \<and>
   (24 :: size_t) < VGA_HEIGHT \<and>
   unat (terminal_row (terminal_putchar 10
      \<lparr>terminal_row = 24, terminal_column = 17, terminal_color = 7, terminal_buffer = blank_memory\<rparr>)) = 0"
  using putchar_newline_advances_row
    [of "\<lparr>terminal_row = 24, terminal_column = 17, terminal_color = 7, terminal_buffer = blank_memory\<rparr>"]
  by (simp add: VGA_HEIGHT_def)

text \<open>
  C9. Only the newline byte is treated as a control character. For every other
  byte \<open>c\<close> (carriage return 13, tab 9 and NUL 0 among them) \<open>terminal_putchar\<close>
  stores the cell made of \<open>c\<close> and the current attribute at the cursor position,
  changes no other cell, and advances the column by one, with the wrap to column 0
  of the next row at the end of a line. \<open>terminal_write\<close> with an explicit length
  passes such bytes on to \<open>terminal_putchar\<close> one by one, NUL included.
\<close>

theorem putchar_writes_byte_literally:
  "c \<noteq> 10 \<Longrightarrow>
   terminal_buffer (terminal_putchar c s) =
     (terminal_buffer s)
       (terminal_row s * VGA_WIDTH + terminal_column s := vga_entry c (terminal_color s)) \<and>
   ucast (terminal_buffer (terminal_putchar c s)
      (terminal_row s * VGA_WIDTH + terminal_column s)) = c \<and>
   ucast (drop_bit 8 (terminal_buffer (terminal_putchar c s)
      (terminal_row s * VGA_WIDTH + terminal_column s))) = terminal_color s \<and>
   terminal_column (terminal_putchar c s) =
     (if terminal_column s + 1 = VGA_WIDTH then 0 else terminal_column s + 1) \<and>
   terminal_row (terminal_putchar c s) =
     (if terminal_column s + 1 = VGA_WIDTH
      then (if terminal_row s + 1 = VGA_HEIGHT then 0 else terminal_row s + 1)
      else terminal_row s) \<and>
   terminal_color (terminal_putchar c s) = terminal_color s \<and>
   terminal_write (c # rest) 1 s = Some (terminal_putchar c s) \<and>
   terminal_write (13 # 9 # 0 # rest) 3 s =
     Some (terminal_putchar 0 (terminal_putchar 9 (terminal_putchar 13 s)))"
proof -
  assume c: "c \<noteq> 10"
  have one: "terminal_write (c # rest) 1 s = Some (terminal_putchar c s)"
    using terminal_write_fold [of 1 "c # rest" s] by simp
  have three: "terminal_write (13 # 9 # 0 # rest) 3 s =
      Some (terminal_putchar 0 (terminal_putchar 9 (terminal_putchar 13 s)))"
    using terminal_write_fold [of 3 "13 # 9 # 0 # rest" s] by (simp add: numeral_3_eq_3)
  show ?thesis
    unfolding one three
    by (simp add: putchar_other [OF c] VGA_WIDTH_def VGA_HEIGHT_def vga_entry_low vga_entry_high)
qed

theorem putchar_writes_byte_literally_witness:
  "(13 :: uint8_t) \<noteq> 10 \<and>
   terminal_buffer (terminal_putchar 13
     \<lparr>terminal_row = 2, terminal_column = 79, terminal_color = 7, terminal_buffer = blank_memory\<rparr>) 239
     = 1805 \<and>
   terminal_column (terminal_putchar 13
     \<lparr>terminal_row = 2, terminal_column = 79, terminal_color = 7, terminal_buffer = blank_memory\<rparr>) = 0 \<and>
   terminal_row (terminal_putchar 13
     \<lparr>terminal_row = 2, terminal_column = 79, terminal_color = 7, terminal_buffer = blank_memory\<rparr>) = 3"
  using putchar_writes_byte_literally [of 13
     "\<lparr>terminal_row = 2, terminal_column = 79, terminal_color = 7, terminal_buffer = blank_memory\<rparr>"]
  by (simp add: VGA_WIDTH_def VGA_HEIGHT_def vga_entry_def)

text \<open>
  C7. When the row wraps from \<open>VGA_HEIGHT - 1\<close> to 0, the wrap itself modifies no
  cell. After a newline in the last row the grid is the one before. After a
  character written at the last column of the last row, every cell other than the
  one that character was written to is as before: no row is shifted and the top
  row is not cleared.
\<close>

theorem row_wrap_keeps_cells:
  "terminal_row s = VGA_HEIGHT - 1 \<Longrightarrow>
   terminal_row (terminal_putchar 10 s) = 0 \<and>
   terminal_buffer (terminal_putchar 10 s) = terminal_buffer s \<and>
   (c \<noteq> 10 \<and> terminal_column s = VGA_WIDTH - 1 \<longrightarrow>
      terminal_row (terminal_putchar c s) = 0 \<and>
      terminal_column (terminal_putchar c s) = 0 \<and>
      (\<forall>index. index \<noteq> (VGA_HEIGHT - 1) * VGA_WIDTH + (VGA_WIDTH - 1) \<longrightarrow>
         terminal_buffer (terminal_putchar c s) index = terminal_buffer s index) \<and>
      (\<forall>x. x < VGA_WIDTH \<longrightarrow>
         terminal_buffer (terminal_putchar c s) (0 * VGA_WIDTH + x) =
         terminal_buffer s (0 * VGA_WIDTH + x)))"
proof -
  assume r: "terminal_row s = VGA_HEIGHT - 1"
  have nl: "terminal_row (terminal_putchar 10 s) = 0 \<and>
      terminal_buffer (terminal_putchar 10 s) = terminal_buffer s"
    using r by (simp add: putchar_newline VGA_HEIGHT_def)
  have top: "x \<noteq> 1999" if "x < VGA_WIDTH" for x :: size_t
    using that by (auto simp: VGA_WIDTH_def)
  have ch: "terminal_row (terminal_putchar c s) = 0 \<and>
      terminal_column (terminal_putchar c s) = 0 \<and>
      (\<forall>index. index \<noteq> (VGA_HEIGHT - 1) * VGA_WIDTH + (VGA_WIDTH - 1) \<longrightarrow>
         terminal_buffer (terminal_putchar c s) index = terminal_buffer s index) \<and>
      (\<forall>x. x < VGA_WIDTH \<longrightarrow>
         terminal_buffer (terminal_putchar c s) (0 * VGA_WIDTH + x) =
         terminal_buffer s (0 * VGA_WIDTH + x))"
    if "c \<noteq> 10" "terminal_column s = VGA_WIDTH - 1"
    using r that(2) top by (simp add: putchar_other [OF that(1)] VGA_HEIGHT_def VGA_WIDTH_def)
  from nl ch show ?thesis by blast
qed

theorem row_wrap_keeps_cells_witness:
  "terminal_row (terminal_putchar 10
     \<lparr>terminal_row = 24, terminal_column = 79, terminal_color = 7, terminal_buffer = blank_memory\<rparr>) = 0 \<and>
   terminal_buffer (terminal_putchar 10
     \<lparr>terminal_row = 24, terminal_column = 79, terminal_color = 7, terminal_buffer = blank_memory\<rparr>)
     = blank_memory \<and>
   terminal_row (terminal_putchar 65
     \<lparr>terminal_row = 24, terminal_column = 79, terminal_color = 7, terminal_buffer = blank_memory\<rparr>) = 0 \<and>
   terminal_column (terminal_putchar 65
     \<lparr>terminal_row = 24, terminal_column = 79, terminal_color = 7, terminal_buffer = blank_memory\<rparr>) = 0 \<and>
   terminal_buffer (terminal_putchar 65
     \<lparr>terminal_row = 24, terminal_column = 79, terminal_color = 7, terminal_buffer = blank_memory\<rparr>) 5
     = blank_memory 5"
  using row_wrap_keeps_cells [of
     "\<lparr>terminal_row = 24, terminal_column = 79, terminal_color = 7, terminal_buffer = blank_memory\<rparr>" 65]
  by (simp add: VGA_WIDTH_def VGA_HEIGHT_def)

text \<open>
  C6. After \<open>terminal_initialize\<close>, whatever the video memory held before, the
  cursor is at row 0, column 0, the current attribute is light cyan on black (the
  byte 11), and every cell of the \<open>VGA_WIDTH\<close> by \<open>VGA_HEIGHT\<close> grid is the space
  character (32) with that attribute.
\<close>

theorem terminal_initialize_clears:
  "terminal_row (terminal_initialize m) = 0 \<and>
   terminal_column (terminal_initialize m) = 0 \<and>
   terminal_color (terminal_initialize m) = vga_entry_color VGA_LIGHT_CYAN VGA_BLACK \<and>
   take_bit 4 (terminal_color (terminal_initialize m)) = word_of_int (vga_color_code VGA_LIGHT_CYAN) \<and>
   drop_bit 4 (terminal_color (terminal_initialize m)) = word_of_int (vga_color_code VGA_BLACK) \<and>
   (\<forall>x y. x < VGA_WIDTH \<and> y < VGA_HEIGHT \<longrightarrow>
      terminal_buffer (terminal_initialize m) (y * VGA_WIDTH + x) =
        vga_entry 32 (vga_entry_color VGA_LIGHT_CYAN VGA_BLACK) \<and>
      ucast (terminal_buffer (terminal_initialize m) (y * VGA_WIDTH + x)) = (32 :: uint8_t) \<and>
      ucast (drop_bit 8 (terminal_buffer (terminal_initialize m) (y * VGA_WIDTH + x))) =
        terminal_color (terminal_initialize m))"
proof -
  let ?s0 = "\<lparr>terminal_row = 0, terminal_column = 0,
      terminal_color = vga_entry_color VGA_LIGHT_CYAN VGA_BLACK, terminal_buffer = m\<rparr>"
  have fields: "terminal_row (terminal_initialize m) = 0 \<and>
      terminal_column (terminal_initialize m) = 0 \<and>
      terminal_color (terminal_initialize m) = vga_entry_color VGA_LIGHT_CYAN VGA_BLACK"
    using init_y_fields [of 0 ?s0] by (simp add: terminal_initialize_def)
  have nib: "take_bit 4 (vga_entry_color VGA_LIGHT_CYAN VGA_BLACK) =
        (word_of_int (vga_color_code VGA_LIGHT_CYAN) :: uint8_t) \<and>
      drop_bit 4 (vga_entry_color VGA_LIGHT_CYAN VGA_BLACK) =
        (word_of_int (vga_color_code VGA_BLACK) :: uint8_t)"
    by (simp add: vga_entry_color_def)
  have cell: "terminal_buffer (terminal_initialize m) (y * VGA_WIDTH + x) =
      vga_entry 32 (vga_entry_color VGA_LIGHT_CYAN VGA_BLACK)"
    if "x < VGA_WIDTH" "y < VGA_HEIGHT" for x y
    using init_y_fills [of 0 y x ?s0] that by (simp add: terminal_initialize_def)
  show ?thesis
    using fields nib cell by (simp add: vga_entry_low vga_entry_high)
qed

theorem terminal_initialize_clears_witness:
  "(3 :: size_t) < VGA_WIDTH \<and> (2 :: size_t) < VGA_HEIGHT \<and>
   terminal_buffer (terminal_initialize blank_memory) (2 * VGA_WIDTH + 3) = 2848 \<and>
   terminal_color (terminal_initialize blank_memory) = 11"
proof -
  have b: "(3 :: size_t) < VGA_WIDTH \<and> (2 :: size_t) < VGA_HEIGHT"
    by (simp add: VGA_WIDTH_def VGA_HEIGHT_def)
  from terminal_initialize_clears [of blank_memory]
  have col: "terminal_color (terminal_initialize blank_memory) =
      vga_entry_color VGA_LIGHT_CYAN VGA_BLACK"
    and cells: "\<forall>x y. x < VGA_WIDTH \<and> y < VGA_HEIGHT \<longrightarrow>
      terminal_buffer (terminal_initialize blank_memory) (y * VGA_WIDTH + x) =
        vga_entry 32 (vga_entry_color VGA_LIGHT_CYAN VGA_BLACK)"
    by blast+
  from cells b have "terminal_buffer (terminal_initialize blank_memory) (2 * VGA_WIDTH + 3) =
      vga_entry 32 (vga_entry_color VGA_LIGHT_CYAN VGA_BLACK)"
    by blast
  with b col show ?thesis
    by (simp add: vga_entry_def vga_entry_color_def)
qed

text \<open>
  C1 (amended). For every byte sequence \<open>S\<close> without a newline and of length
  \<open>L \<le> VGA_WIDTH\<close>, \<open>terminal_write\<close> of \<open>S\<close> from column 0 returns a state in which
  the cells of the row at columns \<open>[0, L)\<close> hold the characters of \<open>S\<close> in order with
  the current attribute and the cells at columns \<open>[L, VGA_WIDTH)\<close> are unchanged;
  when \<open>L < VGA_WIDTH\<close> the cursor is at column \<open>L\<close> of the same row. (For
  \<open>L = VGA_WIDTH\<close> the cursor has left the row, see C3.) The bytes need not be
  printable, and the array may continue after \<open>S\<close>.
\<close>

theorem write_within_row:
  "length S \<le> unat VGA_WIDTH \<Longrightarrow> 10 \<notin> set S \<Longrightarrow> terminal_column s = 0 \<Longrightarrow>
   \<exists>s'. terminal_write (S @ rest) (length S) s = Some s' \<and>
     (length S < unat VGA_WIDTH \<longrightarrow>
        terminal_column s' = of_nat (length S) \<and> terminal_row s' = terminal_row s) \<and>
     terminal_color s' = terminal_color s \<and>
     (\<forall>k<length S. terminal_buffer s' (terminal_row s * VGA_WIDTH + of_nat k) =
        vga_entry (S ! k) (terminal_color s)) \<and>
     (\<forall>x. of_nat (length S) \<le> x \<and> x < VGA_WIDTH \<longrightarrow>
        terminal_buffer s' (terminal_row s * VGA_WIDTH + x) =
        terminal_buffer s (terminal_row s * VGA_WIDTH + x))"
proof -
  assume len: "length S \<le> unat VGA_WIDTH" and nl: "10 \<notin> set S"
    and col: "terminal_column s = 0"
  let ?s' = "fold terminal_putchar S s"
  from len have len80: "length S \<le> 80" by (simp add: VGA_WIDTH_def)
  with col have fits: "unat (terminal_column s) + length S \<le> 80" by simp
  note line = fold_putchar_line [OF nl fits]
  have cursor: "terminal_column ?s' = of_nat (length S) \<and> terminal_row ?s' = terminal_row s"
    if "length S < unat VGA_WIDTH"
    using line that col by (simp add: VGA_WIDTH_def)
  have color: "terminal_color ?s' = terminal_color s"
    using line by blast
  have cells: "terminal_buffer ?s' (terminal_row s * VGA_WIDTH + of_nat k) =
      vga_entry (S ! k) (terminal_color s)" if "k < length S" for k
  proof -
    from line that have "terminal_buffer ?s'
        (terminal_row s * 80 + terminal_column s + of_nat k) = vga_entry (S ! k) (terminal_color s)"
      by blast
    then show ?thesis by (simp add: col VGA_WIDTH_def)
  qed
  have frame: "terminal_buffer ?s' (terminal_row s * VGA_WIDTH + x) =
      terminal_buffer s (terminal_row s * VGA_WIDTH + x)"
    if "of_nat (length S) \<le> x" for x
  proof -
    have "terminal_row s * 80 + x \<noteq> terminal_row s * 80 + terminal_column s + of_nat k"
      if k: "k < length S" for k
    proof -
      from k len80 have "(of_nat k :: size_t) < of_nat (length S)"
        by (intro of_nat_less32) simp_all
      with \<open>of_nat (length S) \<le> x\<close> have "of_nat k \<noteq> x" by auto
      then show ?thesis by (simp add: col)
    qed
    with line have "terminal_buffer ?s' (terminal_row s * 80 + x) =
        terminal_buffer s (terminal_row s * 80 + x)"
      by blast
    then show ?thesis by (simp add: VGA_WIDTH_def)
  qed
  from cursor color cells frame show ?thesis
    unfolding write_prefix_fold by blast
qed

theorem write_within_row_witness:
  "length [72, 105 :: uint8_t] \<le> unat VGA_WIDTH \<and> 10 \<notin> set [72, 105 :: uint8_t] \<and>
   (\<exists>s'. terminal_write ([72, 105] @ [0]) (length [72, 105 :: uint8_t])
        \<lparr>terminal_row = 3, terminal_column = 0, terminal_color = 7, terminal_buffer = blank_memory\<rparr>
        = Some s' \<and>
      terminal_column s' = 2 \<and> terminal_row s' = 3 \<and>
      terminal_buffer s' 240 = 1864 \<and> terminal_buffer s' 241 = 1897 \<and>
      terminal_buffer s' 242 = 0)"
proof -
  let ?S = "[72, 105 :: uint8_t]"
  let ?s = "\<lparr>terminal_row = 3, terminal_column = 0, terminal_color = 7, terminal_buffer = blank_memory\<rparr>"
  have h: "length ?S \<le> unat VGA_WIDTH" "10 \<notin> set ?S" "terminal_column ?s = 0"
    by (simp_all add: VGA_WIDTH_def)
  from write_within_row [OF h, of "[0]"] obtain s' where
    w: "terminal_write (?S @ [0]) (length ?S) ?s = Some s'" and
    cur: "length ?S < unat VGA_WIDTH \<longrightarrow>
        terminal_column s' = of_nat (length ?S) \<and> terminal_row s' = terminal_row ?s" and
    cells: "\<forall>k<length ?S. terminal_buffer s' (terminal_row ?s * VGA_WIDTH + of_nat k) =
        vga_entry (?S ! k) (terminal_color ?s)" and
    frame: "\<forall>x. of_nat (length ?S) \<le> x \<and> x < VGA_WIDTH \<longrightarrow>
        terminal_buffer s' (terminal_row ?s * VGA_WIDTH + x) =
        terminal_buffer ?s (terminal_row ?s * VGA_WIDTH + x)"
    by blast
  from cur have c: "terminal_column s' = 2 \<and> terminal_row s' = 3"
    by (simp add: VGA_WIDTH_def)
  from cells [rule_format, of 0] have k0: "terminal_buffer s' 240 = 1864"
    by (simp add: VGA_WIDTH_def vga_entry_def)
  from cells [rule_format, of 1] have k1: "terminal_buffer s' 241 = 1897"
    by (simp add: VGA_WIDTH_def vga_entry_def)
  from frame [rule_format, of 2] have k2: "terminal_buffer s' 242 = 0"
    by (simp add: VGA_WIDTH_def blank_memory_def)
  from h w c k0 k1 k2 show ?thesis by blast
qed

text \<open>
  The claim as first stated also covers \<open>L = VGA_WIDTH\<close> and fails there: after
  \<open>terminal_initialize\<close>, writing 80 letters \<open>A\<close> leaves the cursor at column 0 of
  row 1, not at column 80 of row 0.
\<close>

theorem write_full_width_counterexample:
  "length (replicate 80 (65 :: uint8_t)) \<le> unat VGA_WIDTH \<and>
   10 \<notin> set (replicate 80 (65 :: uint8_t)) \<and>
   terminal_column (terminal_initialize blank_memory) = 0 \<and>
   terminal_row (terminal_initialize blank_memory) = 0 \<and>
   map_option terminal_column
     (terminal_write (replicate 80 65) 80 (terminal_initialize blank_memory)) = Some 0 \<and>
   map_option terminal_column
     (terminal_write (replicate 80 65) 80 (terminal_initialize blank_memory)) \<noteq> Some 80 \<and>
   map_option terminal_row
     (terminal_write (replicate 80 65) 80 (terminal_initialize blank_memory)) = Some 1"
proof -
  let ?S = "replicate 80 (65 :: uint8_t)"
  let ?s = "terminal_initialize blank_memory"
  have init: "terminal_column ?s = 0 \<and> terminal_row ?s = 0"
    using init_y_fields [of 0] by (simp add: terminal_initialize_def)
  have nl: "10 \<notin> set ?S" by simp
  have fits: "unat (terminal_column ?s) + length ?S \<le> 80" by (simp add: init)
  from fold_putchar_line [OF nl fits]
  have "terminal_column (fold terminal_putchar ?S ?s) = 0 \<and>
      terminal_row (fold terminal_putchar ?S ?s) = 1"
    by (simp add: init)
  moreover have "terminal_write ?S 80 ?s = Some (fold terminal_putchar ?S ?s)"
    using terminal_write_fold [of 80 ?S ?s] by simp
  ultimately show ?thesis using init by (simp add: VGA_WIDTH_def)
qed

text \<open>
  C3. For every byte sequence \<open>S\<close> of length exactly \<open>VGA_WIDTH\<close> without a newline,
  \<open>terminal_write\<close> of \<open>S\<close> from column 0 returns a state with the cursor at column
  0 and at row + 1, or row 0 when row + 1 equals \<open>VGA_HEIGHT\<close>: for a row inside the
  grid, (row + 1) modulo 25.
\<close>

theorem write_full_row_wraps:
  "length S = unat VGA_WIDTH \<Longrightarrow> 10 \<notin> set S \<Longrightarrow> terminal_column s = 0 \<Longrightarrow>
   \<exists>s'. terminal_write (S @ rest) (length S) s = Some s' \<and>
     terminal_column s' = 0 \<and>
     terminal_row s' = (if terminal_row s + 1 = VGA_HEIGHT then 0 else terminal_row s + 1) \<and>
     (terminal_row s < VGA_HEIGHT \<longrightarrow>
        unat (terminal_row s') = (unat (terminal_row s) + 1) mod 25)"
proof -
  assume len: "length S = unat VGA_WIDTH" and nl: "10 \<notin> set S"
    and col: "terminal_column s = 0"
  let ?s' = "fold terminal_putchar S s"
  from len have len80: "length S = 80" by (simp add: VGA_WIDTH_def)
  then have ne: "S \<noteq> []" by auto
  from col len80 have fits: "unat (terminal_column s) + length S \<le> 80" by simp
  from fold_putchar_line [OF nl fits] ne col len80
  have cur: "terminal_column ?s' = 0 \<and>
      terminal_row ?s' = (if terminal_row s + 1 = VGA_HEIGHT then 0 else terminal_row s + 1)"
    by (simp add: VGA_HEIGHT_def)
  then have "unat (terminal_row ?s') = (unat (terminal_row s) + 1) mod 25"
    if "terminal_row s < VGA_HEIGHT"
    using row_step_mod [OF that] by simp
  with cur show ?thesis unfolding write_prefix_fold by blast
qed

theorem write_full_row_wraps_witness:
  "length (replicate 80 (65 :: uint8_t)) = unat VGA_WIDTH \<and>
   10 \<notin> set (replicate 80 (65 :: uint8_t)) \<and>
   (\<exists>s'. terminal_write (replicate 80 65 @ []) (length (replicate 80 (65 :: uint8_t)))
        \<lparr>terminal_row = 24, terminal_column = 0, terminal_color = 7, terminal_buffer = blank_memory\<rparr>
        = Some s' \<and>
      terminal_column s' = 0 \<and> terminal_row s' = 0)"
proof -
  let ?S = "replicate 80 (65 :: uint8_t)"
  let ?s = "\<lparr>terminal_row = 24, terminal_column = 0, terminal_color = 7, terminal_buffer = blank_memory\<rparr>"
  have h: "length ?S = unat VGA_WIDTH" "10 \<notin> set ?S" "terminal_column ?s = 0"
    by (simp_all add: VGA_WIDTH_def)
  from write_full_row_wraps [OF h, of "[]"] obtain s' where
    "terminal_write (?S @ []) (length ?S) ?s = Some s'" "terminal_column s' = 0"
    "terminal_row s' = (if terminal_row ?s + 1 = VGA_HEIGHT then 0 else terminal_row ?s + 1)"
    by blast
  then have "terminal_write (?S @ []) (length ?S) ?s = Some s' \<and>
      terminal_column s' = 0 \<and> terminal_row s' = 0"
    by (simp add: VGA_HEIGHT_def)
  with h show ?thesis by blast
qed

text \<open>
  C4. The cursor-bounds invariant \<open>terminal_row < VGA_HEIGHT\<close> and
  \<open>terminal_column < VGA_WIDTH\<close> holds after \<open>terminal_initialize\<close>, and every
  operation started in a state that satisfies it ends in one: \<open>terminal_putchar\<close>
  with any byte, \<open>terminal_setcolor\<close>, \<open>terminal_write\<close> with any array and length,
  \<open>terminal_writestring\<close> and \<open>terminal_writeline\<close>. The writes that stay inside
  their array (a length within the array, a string with its terminator) do return
  a state.
\<close>

theorem cursor_bounds_invariant:
  "cursor_in_bounds (terminal_initialize m) \<and>
   (cursor_in_bounds s \<longrightarrow>
      cursor_in_bounds (terminal_putchar c s) \<and>
      cursor_in_bounds (terminal_setcolor color s) \<and>
      (\<forall>s'. terminal_write data sz s = Some s' \<longrightarrow> cursor_in_bounds s') \<and>
      (sz \<le> length data \<longrightarrow>
         (\<exists>s'. terminal_write data sz s = Some s' \<and> cursor_in_bounds s')) \<and>
      (\<forall>s'. terminal_writestring str s = Some s' \<longrightarrow> cursor_in_bounds s') \<and>
      (\<forall>s'. terminal_writeline str s = Some s' \<longrightarrow> cursor_in_bounds s') \<and>
      (0 \<in> set str \<longrightarrow>
         (\<exists>s'. terminal_writestring str s = Some s' \<and> cursor_in_bounds s') \<and>
         (\<exists>s'. terminal_writeline str s = Some s' \<and> cursor_in_bounds s')))"
proof -
  have init: "cursor_in_bounds (terminal_initialize m)"
    using init_y_fields [of 0]
    by (simp add: terminal_initialize_def cursor_in_bounds_def VGA_HEIGHT_def VGA_WIDTH_def)
  have setc: "cursor_in_bounds (terminal_setcolor color s)" if "cursor_in_bounds s"
    using that by (simp add: terminal_setcolor_def cursor_in_bounds_def)
  have wr: "\<exists>s'. terminal_write data sz s = Some s' \<and> cursor_in_bounds s'"
    if "cursor_in_bounds s" "sz \<le> length data"
    using terminal_write_fold [OF that(2), of s] write_in_bounds [OF that(1)] by blast
  have ws: "\<exists>s'. terminal_writestring str s = Some s' \<and> cursor_in_bounds s'"
    if "cursor_in_bounds s" "0 \<in> set str"
    using writestring_string [OF that(2), of s] writestring_in_bounds [OF that(1)] by blast
  have wl: "\<exists>s'. terminal_writeline str s = Some s' \<and> cursor_in_bounds s'"
    if "cursor_in_bounds s" "0 \<in> set str"
  proof -
    from writestring_string [OF that(2), of s]
    have "terminal_writeline str s \<noteq> None" by (simp add: terminal_writeline_def)
    then show ?thesis using writeline_in_bounds [OF that(1)] by blast
  qed
  from init setc wr ws wl show ?thesis
    using putchar_in_bounds write_in_bounds writestring_in_bounds writeline_in_bounds
    by blast
qed

theorem cursor_bounds_invariant_witness:
  "cursor_in_bounds (terminal_initialize blank_memory) \<and>
   cursor_in_bounds
     \<lparr>terminal_row = 24, terminal_column = 79, terminal_color = 7, terminal_buffer = blank_memory\<rparr> \<and>
   cursor_in_bounds (terminal_putchar 65
     \<lparr>terminal_row = 24, terminal_column = 79, terminal_color = 7, terminal_buffer = blank_memory\<rparr>) \<and>
   cursor_in_bounds (terminal_setcolor 14
     \<lparr>terminal_row = 24, terminal_column = 79, terminal_color = 7, terminal_buffer = blank_memory\<rparr>) \<and>
   (\<exists>s'. terminal_write [72, 105, 10] 3
     \<lparr>terminal_row = 24, terminal_column = 79, terminal_color = 7, terminal_buffer = blank_memory\<rparr>
       = Some s' \<and> cursor_in_bounds s') \<and>
   (\<exists>s'. terminal_writeline [72, 105, 0]
     \<lparr>terminal_row = 24, terminal_column = 79, terminal_color = 7, terminal_buffer = blank_memory\<rparr>
       = Some s' \<and> cursor_in_bounds s')"
proof -
  let ?s = "\<lparr>terminal_row = 24, terminal_column = 79, terminal_color = 7, terminal_buffer = blank_memory\<rparr>"
  have h: "cursor_in_bounds ?s"
    by (simp add: cursor_in_bounds_def VGA_HEIGHT_def VGA_WIDTH_def)
  have d: "(3 :: nat) \<le> length [72, 105, 10 :: uint8_t]" "0 \<in> set [72, 105, 0 :: uint8_t]"
    by simp_all
  from cursor_bounds_invariant [of blank_memory ?s 65 14 "[72, 105, 10]" 3 "[72, 105, 0]"] h d
  show ?thesis by blast
qed

text \<open>
  C5. For every string (an array \<open>str\<close> that contains the terminator; its bytes are
  those before the first NUL), \<open>terminal_writeline\<close> returns exactly the state
  reached by \<open>terminal_write\<close> of the string's bytes followed by one
  \<open>terminal_putchar\<close> of the newline character. That state differs from the one
  with no newline and from the one with two.
\<close>

theorem writeline_is_write_then_newline:
  "0 \<in> set str \<Longrightarrow>
   \<exists>s1. terminal_write str (length (takeWhile (\<lambda>b. b \<noteq> 0) str)) s = Some s1 \<and>
     terminal_write (takeWhile (\<lambda>b. b \<noteq> 0) str) (length (takeWhile (\<lambda>b. b \<noteq> 0) str)) s
       = Some s1 \<and>
     terminal_writeline str s = Some (terminal_putchar 10 s1) \<and>
     terminal_writeline str s \<noteq> Some s1 \<and>
     terminal_writeline str s \<noteq> Some (terminal_putchar 10 (terminal_putchar 10 s1))"
proof -
  assume z: "0 \<in> set str"
  let ?bytes = "takeWhile (\<lambda>b. b \<noteq> 0) str"
  let ?s1 = "fold terminal_putchar ?bytes s"
  have le: "length ?bytes \<le> length str" by (rule length_takeWhile_le)
  have tk: "take (length ?bytes) str = ?bytes"
    by (rule takeWhile_eq_take [symmetric])
  have w1: "terminal_write str (length ?bytes) s = Some ?s1"
    using terminal_write_fold [OF le, of s] by (simp add: tk)
  have w2: "terminal_write ?bytes (length ?bytes) s = Some ?s1"
    using terminal_write_fold [of "length ?bytes" ?bytes s] by simp
  have wl: "terminal_writeline str s = Some (terminal_putchar 10 ?s1)"
    by (simp add: terminal_writeline_def writestring_string [OF z])
  have n0: "terminal_putchar 10 ?s1 \<noteq> ?s1" by (rule putchar_newline_moves)
  have n2: "terminal_putchar 10 ?s1 \<noteq> terminal_putchar 10 (terminal_putchar 10 ?s1)"
    using putchar_newline_moves [of "terminal_putchar 10 ?s1"] by simp
  from w1 w2 wl n0 n2 show ?thesis by simp
qed

theorem writeline_is_write_then_newline_witness:
  "0 \<in> set [72, 105, 0 :: uint8_t] \<and>
   (\<exists>s1. terminal_write [72, 105] 2
        \<lparr>terminal_row = 3, terminal_column = 0, terminal_color = 7, terminal_buffer = blank_memory\<rparr>
        = Some s1 \<and>
      terminal_writeline [72, 105, 0]
        \<lparr>terminal_row = 3, terminal_column = 0, terminal_color = 7, terminal_buffer = blank_memory\<rparr>
        = Some (terminal_putchar 10 s1))"
proof -
  let ?s = "\<lparr>terminal_row = 3, terminal_column = 0, terminal_color = 7, terminal_buffer = blank_memory\<rparr>"
  have z: "0 \<in> set [72, 105, 0 :: uint8_t]" by simp
  have tw: "takeWhile (\<lambda>b. b \<noteq> 0) [72, 105, 0 :: uint8_t] = [72, 105]" by simp
  from writeline_is_write_then_newline [OF z, of ?s] obtain s1 where
    a: "terminal_write (takeWhile (\<lambda>b. b \<noteq> 0) [72, 105, 0])
          (length (takeWhile (\<lambda>b. b \<noteq> 0) [72, 105, 0 :: uint8_t])) ?s = Some s1" and
    b: "terminal_writeline [72, 105, 0] ?s = Some (terminal_putchar 10 s1)"
    by blast
  from a have "terminal_write [72, 105] 2 ?s = Some s1"
    unfolding tw by (simp add: numeral_2_eq_2)
  with b z show ?thesis by blast
qed

end
